theory Spec2Isabelle
  imports Complex_Main
begin

section \<open>The jump-jump oscillator: constants and the energy function\<close>

text \<open>
  The script \<^verbatim>\<open>energia_mecanica_of_jump-jump.py\<close> computes with Python floats.
  Two embeddings of \<^verbatim>\<open>calcular_Energias\<close> are given. The first reads every float as
  a real number and every operation as the exact operation on the reals: it is the
  idealised arithmetic of the script, and its theorems say so. The second,
  \<open>calcular_Energias_d\<close>, rounds the result of every operation to a double, to the
  nearest with ties to even; the squares \<^verbatim>\<open>x ** 2\<close> and \<^verbatim>\<open>v ** 2\<close> are computed by the
  C library's \<^verbatim>\<open>pow\<close>, which need not round to the nearest, and are a parameter of it.
  Statements whose truth depends on rounding are settled on the second. In both,
  \<^verbatim>\<open>x ** 2\<close> on line 52 fails when the square is outside the range of a double, as it
  does for a Python float (OverflowError).
\<close>

subsection \<open>Constants of the system (lines 9 to 22)\<close>

definition m :: real where
  "m = 90"

definition g :: real where
  "g = 981 / 100"

definition x_max :: real where
  "x_max = 1 / 2"

definition y_max :: real where
  "y_max = 1"

definition k :: real where
  "k = 2 * m * g * y_max / x_max\<^sup>2"

definition t_total :: real where
  "t_total = 2 * pi"

definition dt :: real where
  "dt = 5 / 100"

subsection \<open>The numpy operations the script calls\<close>

text \<open>
  \<^verbatim>\<open>np.isclose(a, b, atol=t)\<close> with the default relative tolerance \<^verbatim>\<open>rtol=1e-05\<close>
  tests \<open>\<bar>a - b\<bar> \<le> atol + rtol * \<bar>b\<bar>\<close>. On one scalar, \<^verbatim>\<open>np.any\<close> of the
  result is the result.
\<close>

definition isclose :: "real \<Rightarrow> real \<Rightarrow> real \<Rightarrow> bool" where
  "isclose a b atol \<longleftrightarrow> \<bar>a - b\<bar> \<le> atol + (1 / 100000) * \<bar>b\<bar>"

text \<open>
  \<^verbatim>\<open>np.sqrt\<close> of a negative float is numpy's invalid value (nan, with a
  RuntimeWarning). The model makes that case explicit: \<open>None\<close> stands for it.
\<close>

definition np_sqrt :: "real \<Rightarrow> real option" where
  "np_sqrt r = (if r < 0 then None else Some (sqrt r))"

text \<open>
  For a Python float \<open>r\<close>, \<^verbatim>\<open>r ** 2\<close> raises OverflowError when the square rounds to
  infinity, that is from \<open>2 ^ 1024 - 2 ^ 970\<close> on, the midpoint between the largest double
  and \<open>2 ^ 1024\<close>. \<open>None\<close> stands for the exception.
\<close>

definition double_overflow :: real where
  "double_overflow = 2 ^ 1024 - 2 ^ 970"

definition py_pow2 :: "real \<Rightarrow> real option" where
  "py_pow2 r = (if double_overflow \<le> r\<^sup>2 then None else Some (r\<^sup>2))"

text \<open>
  \<^verbatim>\<open>np.arange(start, stop, step)\<close> has \<open>\<lceil>(stop - start) / step\<rceil>\<close> elements,
  the element of index \<open>i\<close> being \<open>start + i * step\<close>.
\<close>

definition arange :: "real \<Rightarrow> real \<Rightarrow> real \<Rightarrow> real list" where
  "arange start stop step =
     map (\<lambda>i. start + real i * step) [0 ..< nat \<lceil>(stop - start) / step\<rceil>]"

subsection \<open>\<^verbatim>\<open>calcular_Energias\<close> (lines 27 to 66)\<close>

text \<open>
  Lines 46 to 47, the adjustment of positions close to zero, as a function of its own,
  so that statements can name the adjusted position.
\<close>

definition ajusta :: "real \<Rightarrow> real" where
  "ajusta y0 = (if isclose y0 0 (1 / 1000) then 0 else y0)"

text \<open>
  The function returns the tuple \<open>(E_mec, K_c, U_g, U_el, v, x)\<close>. The parameter is
  named \<open>y0\<close> here and \<open>y\<close> is its value after the adjustment, which the source
  writes back into the same variable; the deformation \<open>x\<close> is computed before it, from
  \<open>y0\<close>. The result is \<open>None\<close> when \<^verbatim>\<open>x ** 2\<close> on line 52 raises, and when the
  square root is invalid, which propagates into the kinetic and the total energy. The
  velocity is at most a few metres per second, so \<^verbatim>\<open>v ** 2\<close> on line 63 cannot leave
  the range.
\<close>

definition calcular_Energias ::
  "real \<Rightarrow> (real \<times> real \<times> real \<times> real \<times> real \<times> real) option" where
  "calcular_Energias y0 =
     (let x = (if y0 < x_max then x_max - y0 else 0);
          y = ajusta y0;
          E_t = m * g * y_max;
          U_g = m * g * y
      in case py_pow2 x of
           None \<Rightarrow> None
         | Some x2 \<Rightarrow>
             (let U_el = (1 / 2) * k * x2;
                  vel = (if x_max < y \<and> y < y_max then np_sqrt (2 * (E_t - U_g) / m)
                         else if 0 < y \<and> y < x_max then np_sqrt (2 / m * (E_t - U_g - U_el))
                         else Some 0)
              in case vel of
                   None \<Rightarrow> None
                 | Some v \<Rightarrow>
                     (let K_c = (1 / 2) * m * v\<^sup>2;
                          E_mec = K_c + U_g + U_el
                      in Some (E_mec, K_c, U_g, U_el, v, x))))"

subsection \<open>The precomputed trajectory (lines 72 to 73)\<close>

definition tempos :: "real list" where
  "tempos = arange 0 t_total dt"

definition posicoes :: "real list" where
  "posicoes = map (\<lambda>t. y_max * (1 + cos t) / 2) tempos"

section \<open>Double arithmetic\<close>

text \<open>
  A double is a real \<open>n * 2 ^ e\<close> with \<open>\<bar>n\<bar> < 2 ^ 53\<close>. Every arithmetic operation of
  the script returns the double nearest to the exact result, ties going to the even
  \<open>n\<close>. \<open>rne\<close> rounds a real to the nearest integer with ties to even, \<open>expo r\<close> is the
  binary exponent of \<open>r\<close>, \<open>ulp r\<close> the spacing of the doubles around \<open>r\<close>, and \<open>fl r\<close> the
  double nearest to \<open>r\<close>. The exponent range is not bounded here: subnormal numbers
  and infinities are outside \<open>fl\<close>, and none arises on the positions the theorems are
  about.
\<close>

definition rne :: "real \<Rightarrow> int" where
  "rne q = (let f = \<lfloor>q\<rfloor>; d = q - of_int f in
             if d < 1 / 2 then f else if 1 / 2 < d then f + 1
             else if even f then f else f + 1)"

definition expo :: "real \<Rightarrow> int" where
  "expo r = \<lfloor>log 2 \<bar>r\<bar>\<rfloor>"

definition ulp :: "real \<Rightarrow> real" where
  "ulp r = 2 powr (of_int (expo r) - 52)"

definition fl :: "real \<Rightarrow> real" where
  "fl r = sgn r * (ulp r * of_int (rne (\<bar>r\<bar> / ulp r)))"

text \<open>
  On a nonnegative real, \<open>fl_dn\<close> is the nearest double below or equal and \<open>fl_up\<close> the
  nearest double above or equal. \<^verbatim>\<open>r ** 2\<close> is the C library's \<^verbatim>\<open>pow(r, 2.0)\<close>, which is
  accurate to less than one unit in the last place but is not required to return the
  nearest double: a square function \<open>sq\<close> is \<open>faithful\<close> when \<open>sq r\<close> lies between the
  two, so that it is the exact square whenever that is a double.
\<close>

definition fl_dn :: "real \<Rightarrow> real" where
  "fl_dn r = ulp r * of_int \<lfloor>r / ulp r\<rfloor>"

definition fl_up :: "real \<Rightarrow> real" where
  "fl_up r = ulp r * of_int \<lceil>r / ulp r\<rceil>"

definition faithful :: "(real \<Rightarrow> real) \<Rightarrow> bool" where
  "faithful sq \<longleftrightarrow> (\<forall>r. fl_dn (r\<^sup>2) \<le> sq r \<and> sq r \<le> fl_up (r\<^sup>2))"

subsection \<open>The constants as doubles\<close>

text \<open>
  \<open>m = 90\<close> and \<open>y_max = 1\<close> are integers and \<open>x_max = 0.5\<close> is a double. The literal
  \<^verbatim>\<open>9.81\<close> denotes the double nearest to 9.81. Line 15 computes
  \<^verbatim>\<open>2 * m * g * y_max / x_max**2\<close> from left to right; \<^verbatim>\<open>2 * m\<close> is an integer product.
\<close>

definition g_d :: real where
  "g_d = fl (981 / 100)"

definition k_d :: real where
  "k_d = fl (fl (fl (2 * m * g_d) * y_max) / fl (x_max\<^sup>2))"

subsection \<open>The numpy and Python operations on doubles\<close>

definition isclose_d :: "real \<Rightarrow> real \<Rightarrow> real \<Rightarrow> bool" where
  "isclose_d a b atol \<longleftrightarrow> \<bar>fl (a - b)\<bar> \<le> fl (atol + fl (fl (1 / 100000) * \<bar>b\<bar>))"

definition np_sqrt_d :: "real \<Rightarrow> real option" where
  "np_sqrt_d r = (if r < 0 then None else Some (fl (sqrt r)))"

text \<open>
  \<^verbatim>\<open>r ** 2\<close> with the square \<open>sq\<close>: OverflowError when the result is beyond the
  largest double.
\<close>

definition py_pow2_d :: "(real \<Rightarrow> real) \<Rightarrow> real \<Rightarrow> real option" where
  "py_pow2_d sq r = (if 2 ^ 1024 \<le> sq r then None else Some (sq r))"

subsection \<open>\<^verbatim>\<open>calcular_Energias\<close> on doubles\<close>

text \<open>
  The same lines 40 to 66 with each operation rounded, in the order Python evaluates
  them: \<^verbatim>\<open>m * g * y\<close> is \<open>(m * g) * y\<close>, \<^verbatim>\<open>0.5 * k * x**2\<close> is \<open>(0.5 * k) * (x**2)\<close>,
  \<^verbatim>\<open>2 * (E_t - U_g) / m\<close> is \<open>(2 * (E_t - U_g)) / m\<close>, \<^verbatim>\<open>2 / m * (E_t - U_g - U_el)\<close> is
  \<open>(2 / m) * ((E_t - U_g) - U_el)\<close>, \<^verbatim>\<open>0.5 * m * v**2\<close> is \<open>(0.5 * m) * (v**2)\<close> and
  \<^verbatim>\<open>K_c + U_g + U_el\<close> is \<open>(K_c + U_g) + U_el\<close>. The tolerance \<^verbatim>\<open>1e-3\<close> is the double
  nearest to 0.001. The first argument \<open>sq\<close> is the square of \<^verbatim>\<open>x ** 2\<close> and \<^verbatim>\<open>v ** 2\<close>.
\<close>

definition calcular_Energias_d ::
  "(real \<Rightarrow> real) \<Rightarrow> real \<Rightarrow> (real \<times> real \<times> real \<times> real \<times> real \<times> real) option" where
  "calcular_Energias_d sq y0 =
     (let x = (if y0 < x_max then fl (x_max - y0) else 0);
          y = (if isclose_d y0 0 (fl (1 / 1000)) then 0 else y0);
          E_t = fl (fl (m * g_d) * y_max);
          U_g = fl (fl (m * g_d) * y)
      in case py_pow2_d sq x of
           None \<Rightarrow> None
         | Some x2 \<Rightarrow>
             (let U_el = fl (fl ((1 / 2) * k_d) * x2);
                  vel = (if x_max < y \<and> y < y_max
                           then np_sqrt_d (fl (fl (2 * fl (E_t - U_g)) / m))
                         else if 0 < y \<and> y < x_max
                           then np_sqrt_d (fl (fl (2 / m) * fl (fl (E_t - U_g) - U_el)))
                         else Some 0)
              in case vel of
                   None \<Rightarrow> None
                 | Some v \<Rightarrow>
                     (let K_c = fl (fl ((1 / 2) * m) * sq v);
                          E_mec = fl (fl (K_c + U_g) + U_el)
                      in Some (E_mec, K_c, U_g, U_el, v, x))))"

section \<open>The value of \<^verbatim>\<open>calcular_Energias\<close> on each region of positions\<close>

subsection \<open>Where the square on line 52 stays in range\<close>

lemma py_pow2_in_range: "r\<^sup>2 < double_overflow \<Longrightarrow> py_pow2 r = Some (r\<^sup>2)"
  by (simp add: py_pow2_def)

lemma deformation_in_range:
  assumes "- (2 ^ 511) \<le> y0"
  shows "(if y0 < x_max then x_max - y0 else 0)\<^sup>2 < double_overflow"
proof (cases "y0 < x_max")
  case True
  have "0 \<le> x_max - y0" using True by simp
  moreover have "x_max - y0 \<le> 2 ^ 511 + 1" using assms by (simp add: x_max_def)
  ultimately have "(x_max - y0)\<^sup>2 \<le> (2 ^ 511 + 1)\<^sup>2" by (intro power_mono)
  moreover have "((2 :: real) ^ 511 + 1)\<^sup>2 < double_overflow"
    by (simp add: double_overflow_def power2_eq_square)
  ultimately show ?thesis using True by simp
next
  case False
  then show ?thesis by (simp add: double_overflow_def)
qed

lemma overflow_below: "calcular_Energias (- (2 ^ 512)) = None"
proof -
  have "double_overflow \<le> (x_max - - (2 ^ 512))\<^sup>2"
    by (simp add: double_overflow_def x_max_def power2_eq_square)
  moreover have "- (2 ^ 512) < x_max" by (simp add: x_max_def)
  ultimately show ?thesis by (simp add: calcular_Energias_def Let_def py_pow2_def)
qed

text \<open>Where it does, the function is the same expression with the plain square.\<close>

lemma calc_unfold:
  assumes "- (2 ^ 511) \<le> y0"
  shows "calcular_Energias y0 =
     (let x = (if y0 < x_max then x_max - y0 else 0);
          y = ajusta y0;
          E_t = m * g * y_max;
          U_g = m * g * y;
          U_el = (1 / 2) * k * x\<^sup>2;
          vel = (if x_max < y \<and> y < y_max then np_sqrt (2 * (E_t - U_g) / m)
                 else if 0 < y \<and> y < x_max then np_sqrt (2 / m * (E_t - U_g - U_el))
                 else Some 0)
      in case vel of
           None \<Rightarrow> None
         | Some v \<Rightarrow>
             (let K_c = (1 / 2) * m * v\<^sup>2;
                  E_mec = K_c + U_g + U_el
              in Some (E_mec, K_c, U_g, U_el, v, x)))"
  unfolding calcular_Energias_def Let_def
    py_pow2_in_range [OF deformation_in_range [OF assms]] option.case ..

lemma result_deformation:
  assumes "calcular_Energias y0 = Some (E, K, Ug, Uel, v, x)"
  shows "x = (if y0 < x_max then x_max - y0 else 0)"
  using assms unfolding calcular_Energias_def Let_def
  by (auto split: option.splits)

subsection \<open>The regions\<close>

lemma isclose_zero: "isclose y0 0 (1 / 1000) \<longleftrightarrow> \<bar>y0\<bar> \<le> 1 / 1000"
  by (simp add: isclose_def)

lemma ajusta_snap: "\<bar>y0\<bar> \<le> 1 / 1000 \<Longrightarrow> ajusta y0 = 0"
  by (simp add: ajusta_def isclose_zero)

lemma ajusta_keep: "\<not> \<bar>y0\<bar> \<le> 1 / 1000 \<Longrightarrow> ajusta y0 = y0"
  by (simp add: ajusta_def isclose_zero)

lemma E_t_value: "m * g * y_max = 8829 / 10"
  by (simp add: m_def g_def y_max_def)

lemma k_num: "k = 70632 / 10"
  by (simp add: k_def m_def g_def y_max_def x_max_def power2_eq_square)

lemma radicand_air: "y < y_max \<Longrightarrow> 0 < 2 * (m * g * y_max - m * g * y) / m"
  by (simp add: m_def g_def y_max_def)

lemma radicand_spring_eq:
  "m * g * y_max - m * g * y - (1 / 2) * k * (x_max - y)\<^sup>2 = m * g * (y * (3 - 4 * y))"
  unfolding k_num m_def g_def y_max_def x_max_def power2_eq_square
  by (simp add: field_simps)

lemma radicand_spring:
  assumes "0 < y" "y < x_max"
  shows "0 < 2 / m * (m * g * y_max - m * g * y - (1 / 2) * k * (x_max - y)\<^sup>2)"
proof -
  have "0 < y * (3 - 4 * y)" using assms by (simp add: x_max_def)
  then have "0 < m * g * (y * (3 - 4 * y))" by (simp add: m_def g_def)
  moreover have "(0::real) < 2 / m" by (simp add: m_def)
  ultimately show ?thesis unfolding radicand_spring_eq by (rule mult_pos_pos [rotated])
qed

lemma calc_snap:
  assumes "\<bar>y0\<bar> \<le> 1 / 1000"
  shows "calcular_Energias y0 =
    Some ((1 / 2) * k * (x_max - y0)\<^sup>2, 0, 0, (1 / 2) * k * (x_max - y0)\<^sup>2, 0, x_max - y0)"
proof -
  have big: "- (2 ^ 511) \<le> y0" using assms by simp
  have "y0 < x_max" using assms by (simp add: x_max_def)
  then show ?thesis using assms
    by (simp add: calc_unfold [OF big] ajusta_def isclose_zero Let_def x_max_def y_max_def)
qed




lemma calc_above:
  assumes "y_max \<le> y0"
  shows "calcular_Energias y0 = Some (m * g * y0, 0, m * g * y0, 0, 0, 0)"
proof -
  have big: "- (2 ^ 511) \<le> y0" using assms by (simp add: y_max_def)
  have ns: "\<not> \<bar>y0\<bar> \<le> 1 / 1000" using assms by (simp add: y_max_def)
  have nb: "\<not> y0 < x_max" using assms by (simp add: x_max_def y_max_def)
  have nc: "\<not> y0 < y_max" using assms by simp
  show ?thesis
    unfolding calc_unfold [OF big] Let_def ajusta_def isclose_zero
    using ns nb nc by simp
qed


subsection \<open>No square root is ever invalid\<close>

lemma ajusta_pos: "0 < ajusta y0 \<Longrightarrow> ajusta y0 = y0 \<and> 1 / 1000 < y0"
  by (simp add: ajusta_def isclose_zero split: if_splits)

lemma np_sqrt_air:
  assumes "x_max < ajusta y0" "ajusta y0 < y_max"
  shows "np_sqrt (2 * (m * g * y_max - m * g * ajusta y0) / m)
           = Some (sqrt (2 * (m * g * y_max - m * g * ajusta y0) / m))"
  using radicand_air [OF assms(2)] by (simp add: np_sqrt_def)

lemma np_sqrt_spring:
  assumes "0 < ajusta y0" "ajusta y0 < x_max"
  shows "np_sqrt (2 / m * (m * g * y_max - m * g * ajusta y0
                   - (1 / 2) * k * (if y0 < x_max then x_max - y0 else 0)\<^sup>2))
           = Some (sqrt (2 / m * (m * g * y_max - m * g * ajusta y0
                   - (1 / 2) * k * (if y0 < x_max then x_max - y0 else 0)\<^sup>2)))"
proof -
  have e: "ajusta y0 = y0" and p: "0 < y0" using ajusta_pos [OF assms(1)] by simp_all
  have l: "y0 < x_max" using assms(2) e by simp
  have "0 < 2 / m * (m * g * y_max - m * g * y0 - (1 / 2) * k * (x_max - y0)\<^sup>2)"
    using radicand_spring [OF p l] .
  then show ?thesis using e l by (simp add: np_sqrt_def)
qed

text \<open>
  The function with the total square root in place of \<open>np_sqrt\<close>: on every position
  from \<open>- (2 ^ 511)\<close> up the square stays in range and the radicand of the branch taken
  is positive, so the result is not \<open>None\<close>.
\<close>

lemma calc_general:
  assumes big: "- (2 ^ 511) \<le> y0"
  shows "calcular_Energias y0 =
     (let x = (if y0 < x_max then x_max - y0 else 0);
          y = ajusta y0;
          E_t = m * g * y_max;
          U_g = m * g * y;
          U_el = (1 / 2) * k * x\<^sup>2;
          v = (if x_max < y \<and> y < y_max then sqrt (2 * (E_t - U_g) / m)
               else if 0 < y \<and> y < x_max then sqrt (2 / m * (E_t - U_g - U_el))
               else 0);
          K_c = (1 / 2) * m * v\<^sup>2
      in Some (K_c + U_g + U_el, K_c, U_g, U_el, v, x))"
proof -
  consider (air) "x_max < ajusta y0 \<and> ajusta y0 < y_max"
    | (spring) "\<not> (x_max < ajusta y0 \<and> ajusta y0 < y_max)" "0 < ajusta y0 \<and> ajusta y0 < x_max"
    | (rest) "\<not> (x_max < ajusta y0 \<and> ajusta y0 < y_max)" "\<not> (0 < ajusta y0 \<and> ajusta y0 < x_max)"
    by blast
  then show ?thesis
  proof cases
    case air
    then have h: "np_sqrt (2 * (m * g * y_max - m * g * ajusta y0) / m)
           = Some (sqrt (2 * (m * g * y_max - m * g * ajusta y0) / m))"
      using np_sqrt_air by blast
    show ?thesis
      by (simp only: calc_unfold [OF big] Let_def if_P [OF air] h option.case)
  next
    case spring
    have h: "np_sqrt (2 / m * (m * g * y_max - m * g * ajusta y0
                   - (1 / 2) * k * (if y0 < x_max then x_max - y0 else 0)\<^sup>2))
           = Some (sqrt (2 / m * (m * g * y_max - m * g * ajusta y0
                   - (1 / 2) * k * (if y0 < x_max then x_max - y0 else 0)\<^sup>2)))"
      using np_sqrt_spring spring(2) by blast
    show ?thesis
      by (simp only: calc_unfold [OF big] Let_def if_not_P [OF spring(1)] if_P [OF spring(2)]
            h option.case)
  next
    case rest
    show ?thesis
      by (simp only: calc_unfold [OF big] Let_def if_not_P [OF rest(1)] if_not_P [OF rest(2)]
            option.case)
  qed
qed



lemma calc_returns:
  assumes "- (2 ^ 511) \<le> y0"
  shows "\<exists>E K Ug Uel v x. calcular_Energias y0 = Some (E, K, Ug, Uel, v, x)"
  unfolding calc_general [OF assms] Let_def by blast

section \<open>The spring constant\<close>

text \<open>
  C7. The spring constant is \<open>k = 2 * m * g * y_max / x_max\<^sup>2\<close>, and with
  \<open>m = 90\<close>, \<open>g = 9.81\<close>, \<open>x_max = 0.5\<close>, \<open>y_max = 1\<close> its value is 7063.2.
\<close>

theorem k_value:
  "k = 2 * m * g * y_max / x_max\<^sup>2 \<and> k = 70632 / 10"
  by (simp add: k_def m_def g_def y_max_def x_max_def power2_eq_square)

section \<open>The two turning points\<close>

text \<open>
  C8. At the top, \<open>calcular_Energias 1\<close> has gravitational energy 882.9, no elastic
  energy, velocity 0, kinetic energy 0 and total 882.9. At the bottom,
  \<open>calcular_Energias 0\<close> has deformation 0.5, elastic energy
  \<open>1/2 * 7063.2 * 0.25 = 882.9\<close>, no gravitational energy, velocity 0, kinetic
  energy 0 and total 882.9.
\<close>

theorem turning_points:
  "calcular_Energias 1 = Some (8829 / 10, 0, 8829 / 10, 0, 0, 0) \<and>
   calcular_Energias 0 = Some (8829 / 10, 0, 0, 8829 / 10, 0, 1 / 2) \<and>
   (1 / 2) * k * (1 / 4) = 8829 / 10"
proof -
  have a: "calcular_Energias 1 = Some (8829 / 10, 0, 8829 / 10, 0, 0, 0)"
    using calc_above [of 1] by (simp add: y_max_def m_def g_def)
  have b: "calcular_Energias 0 = Some (8829 / 10, 0, 0, 8829 / 10, 0, 1 / 2)"
    using calc_snap [of 0] by (simp add: k_num x_max_def power2_eq_square)
  have c: "(1 / 2) * k * (1 / 4) = 8829 / 10" by (simp add: k_num)
  from a b c show ?thesis by simp
qed

section \<open>Positions close to zero\<close>

text \<open>
  C6. For every position \<open>y\<close> with \<open>\<bar>y\<bar> \<le> 0.001\<close> the position is adjusted to
  exactly zero before the velocity is chosen, so the returned velocity is 0 and the
  returned kinetic energy is 0.
\<close>

theorem snap_velocity_zero:
  assumes "\<bar>y\<bar> \<le> 1 / 1000"
  shows "ajusta y = 0 \<and> (\<exists>E Ug Uel x. calcular_Energias y = Some (E, 0, Ug, Uel, 0, x))"
proof -
  have "\<exists>E Ug Uel x. calcular_Energias y = Some (E, 0, Ug, Uel, 0, x)"
    unfolding calc_snap [OF assms] by blast
  then show ?thesis using ajusta_snap [OF assms] by simp
qed

theorem snap_velocity_zero_witness:
  "\<bar>- (1 / 1000) :: real\<bar> \<le> 1 / 1000 \<and> ajusta (- (1 / 1000)) = 0 \<and>
     (\<exists>E Ug Uel x. calcular_Energias (- (1 / 1000)) = Some (E, 0, Ug, Uel, 0, x))"
proof -
  have h: "\<bar>- (1 / 1000) :: real\<bar> \<le> 1 / 1000" by simp
  show ?thesis using h snap_velocity_zero [OF h] by blast
qed


lemma np_sqrt_Some: "np_sqrt r = Some v \<Longrightarrow> v = sqrt r"
  by (simp add: np_sqrt_def split: if_splits)

lemma py_pow2_Some: "py_pow2 r = Some s \<Longrightarrow> s = r\<^sup>2"
  by (simp add: py_pow2_def split: if_splits)

lemma result_shape:
  assumes "calcular_Energias y0 = Some (E, K, Ug, Uel, v, x)"
  shows "x = (if y0 < x_max then x_max - y0 else 0)"
    and "Ug = m * g * ajusta y0"
    and "Uel = (1 / 2) * k * x\<^sup>2"
    and "v = (if x_max < ajusta y0 \<and> ajusta y0 < y_max then sqrt (2 * (m * g * y_max - Ug) / m)
              else if 0 < ajusta y0 \<and> ajusta y0 < x_max
                then sqrt (2 / m * (m * g * y_max - Ug - Uel))
              else 0)"
    and "K = (1 / 2) * m * v\<^sup>2"
    and "E = K + Ug + Uel"
proof -
  let ?x = "if y0 < x_max then x_max - y0 else 0"
  obtain x2 where p: "py_pow2 ?x = Some x2"
    using assms unfolding calcular_Energias_def Let_def by (auto split: option.splits)
  have x2: "x2 = ?x\<^sup>2" using p by (rule py_pow2_Some)
  let ?Ug = "m * g * ajusta y0"
  let ?Uel = "(1 / 2) * k * x2"
  let ?vel = "if x_max < ajusta y0 \<and> ajusta y0 < y_max
                then np_sqrt (2 * (m * g * y_max - ?Ug) / m)
              else if 0 < ajusta y0 \<and> ajusta y0 < x_max
                then np_sqrt (2 / m * (m * g * y_max - ?Ug - ?Uel))
              else Some 0"
  obtain w where w: "?vel = Some w"
    using assms unfolding calcular_Energias_def Let_def p option.case
    by (auto split: option.splits)
  have "calcular_Energias y0
             = Some ((1 / 2) * m * w\<^sup>2 + ?Ug + ?Uel, (1 / 2) * m * w\<^sup>2, ?Ug, ?Uel, w, ?x)"
    by (simp only: calcular_Energias_def Let_def p w option.case)
  then have r: "Some (E, K, Ug, Uel, v, x)
             = Some ((1 / 2) * m * w\<^sup>2 + ?Ug + ?Uel, (1 / 2) * m * w\<^sup>2, ?Ug, ?Uel, w, ?x)"
    using assms by (simp only:)
  from r [unfolded option.inject prod.inject]
  have e: "E = (1 / 2) * m * w\<^sup>2 + ?Ug + ?Uel" "K = (1 / 2) * m * w\<^sup>2" "Ug = ?Ug"
    "Uel = ?Uel" "v = w" "x = ?x"
    by blast+
  show "x = ?x" using e by simp
  show "Ug = m * g * ajusta y0" using e by simp
  show "Uel = (1 / 2) * k * x\<^sup>2" using e x2 by simp
  show "K = (1 / 2) * m * v\<^sup>2" using e by simp
  show "E = K + Ug + Uel" using e by simp
  have "w = (if x_max < ajusta y0 \<and> ajusta y0 < y_max then sqrt (2 * (m * g * y_max - ?Ug) / m)
              else if 0 < ajusta y0 \<and> ajusta y0 < x_max
                then sqrt (2 / m * (m * g * y_max - ?Ug - ?Uel))
              else 0)"
    using w by (auto split: if_splits dest: np_sqrt_Some)
  then show "v = (if x_max < ajusta y0 \<and> ajusta y0 < y_max then sqrt (2 * (m * g * y_max - Ug) / m)
              else if 0 < ajusta y0 \<and> ajusta y0 < x_max
                then sqrt (2 / m * (m * g * y_max - Ug - Uel))
              else 0)"
    using e by simp
qed

section \<open>Deformation of the spring\<close>

text \<open>
  C4. For every position \<open>y\<close> the returned deformation is \<open>x_max - y\<close> when
  \<open>y < x_max\<close> and 0 otherwise; so it is 0 for every \<open>y\<close> in \<open>[x_max, y_max]\<close>, and
  \<open>x_max - y \<ge> 0\<close> for every \<open>y\<close> in \<open>[0, x_max)\<close>. This is stated of every result the
  function returns; it returns one for every \<open>y\<close> from \<open>- (2 ^ 511)\<close> up, where the
  square of the deformation stays in the range of a double.
\<close>

theorem deformation_value:
  "(calcular_Energias y = Some (E, K, Ug, Uel, v, x) \<longrightarrow>
      x = (if y < x_max then x_max - y else 0)
      \<and> (x_max \<le> y \<and> y \<le> y_max \<longrightarrow> x = 0)
      \<and> (0 \<le> y \<and> y < x_max \<longrightarrow> x = x_max - y \<and> 0 \<le> x))
   \<and> (- (2 ^ 511) \<le> y \<longrightarrow>
        (\<exists>E K Ug Uel v x. calcular_Energias y = Some (E, K, Ug, Uel, v, x)))"
proof (intro conjI impI)
  assume r: "calcular_Energias y = Some (E, K, Ug, Uel, v, x)"
  show d: "x = (if y < x_max then x_max - y else 0)" using r by (rule result_shape(1))
  show "x = 0" if "x_max \<le> y \<and> y \<le> y_max" using d that by simp
  show "x = x_max - y" if "0 \<le> y \<and> y < x_max" using d that by simp
  show "0 \<le> x" if "0 \<le> y \<and> y < x_max" using d that by simp
next
  assume "- (2 ^ 511) \<le> y"
  then show "\<exists>E K Ug Uel v x. calcular_Energias y = Some (E, K, Ug, Uel, v, x)"
    by (rule calc_returns)
qed

theorem deformation_value_witness:
  "(\<exists>E K Ug Uel v. calcular_Energias (1 / 4) = Some (E, K, Ug, Uel, v, x_max - 1 / 4)
      \<and> - (2 ^ 511) \<le> (1 / 4 :: real) \<and> 0 \<le> (1 / 4 :: real) \<and> 1 / 4 < x_max
      \<and> 0 \<le> x_max - 1 / 4)
   \<and> (\<exists>E K Ug Uel v. calcular_Energias (3 / 4) = Some (E, K, Ug, Uel, v, 0)
      \<and> - (2 ^ 511) \<le> (3 / 4 :: real) \<and> x_max \<le> 3 / 4 \<and> 3 / 4 \<le> y_max)
   \<and> calcular_Energias (- (2 ^ 512)) = None"
proof -
  have a: "- (2 ^ 511) \<le> (1 / 4 :: real)" "0 \<le> (1 / 4 :: real) \<and> 1 / 4 < x_max"
    by (simp_all add: x_max_def)
  have b: "- (2 ^ 511) \<le> (3 / 4 :: real)" "x_max \<le> 3 / 4 \<and> 3 / 4 \<le> y_max"
    by (simp_all add: x_max_def y_max_def)
  obtain E K Ug Uel v x where r: "calcular_Energias (1 / 4) = Some (E, K, Ug, Uel, v, x)"
    using a(1) deformation_value [of "1 / 4"] by blast
  then have x: "x = x_max - 1 / 4 \<and> 0 \<le> x"
    using a(2) deformation_value [of "1 / 4" E K Ug Uel v x] by blast
  obtain E' K' Ug' Uel' v' x' where
    r': "calcular_Energias (3 / 4) = Some (E', K', Ug', Uel', v', x')"
    using b(1) deformation_value [of "3 / 4"] by blast
  then have x': "x' = 0"
    using b(2) deformation_value [of "3 / 4" E' K' Ug' Uel' v' x'] by blast
  show ?thesis using a b r x r' x' overflow_below by blast
qed

section \<open>The velocity\<close>



section \<open>Totality\<close>

text \<open>
  C2. On every position \<open>y\<close> in \<open>[0, y_max]\<close> the function returns a result, and the
  radicand of each square root is nonnegative whenever its branch is taken:
  \<open>2 * (E_t - U_g) / m\<close> on the airborne branch and \<open>2 / m * (E_t - U_g - U_el)\<close> on the
  branch in contact with the spring.
\<close>

theorem total_on_domain:
  assumes "0 \<le> y" "y \<le> y_max"
  shows "(\<exists>r. calcular_Energias y = Some r)
     \<and> (x_max < ajusta y \<and> ajusta y < y_max \<longrightarrow>
          0 \<le> 2 * (m * g * y_max - m * g * ajusta y) / m)
     \<and> (0 < ajusta y \<and> ajusta y < x_max \<longrightarrow>
          0 \<le> 2 / m * (m * g * y_max - m * g * ajusta y
                  - (1 / 2) * k * (if y < x_max then x_max - y else 0)\<^sup>2))"
proof (intro conjI impI)
  have "- (2 ^ 511) \<le> y" using assms(1) by simp
  then show "\<exists>r. calcular_Energias y = Some r"
    using calc_returns [of y] by blast
next
  assume "x_max < ajusta y \<and> ajusta y < y_max"
  then have "0 < 2 * (m * g * y_max - m * g * ajusta y) / m"
    using radicand_air [of "ajusta y"] by blast
  then show "0 \<le> 2 * (m * g * y_max - m * g * ajusta y) / m" by (rule less_imp_le)
next
  assume a: "0 < ajusta y \<and> ajusta y < x_max"
  then have e: "ajusta y = y" using ajusta_pos [of y] by blast
  have "0 < 2 / m * (m * g * y_max - m * g * y - (1 / 2) * k * (x_max - y)\<^sup>2)"
    using radicand_spring [of y] a e by simp
  moreover have "y < x_max" using a e by simp
  ultimately show "0 \<le> 2 / m * (m * g * y_max - m * g * ajusta y
                  - (1 / 2) * k * (if y < x_max then x_max - y else 0)\<^sup>2)"
    unfolding e by (simp only: if_True less_imp_le)
qed

theorem total_on_domain_witness:
  "(0 \<le> (1 / 4 :: real) \<and> 1 / 4 \<le> y_max \<and> (\<exists>r. calcular_Energias (1 / 4) = Some r)
     \<and> 0 < ajusta (1 / 4) \<and> ajusta (1 / 4) < x_max
     \<and> 0 \<le> 2 / m * (m * g * y_max - m * g * ajusta (1 / 4)
                  - (1 / 2) * k * (if 1 / 4 < x_max then x_max - 1 / 4 else 0)\<^sup>2))
   \<and> (0 \<le> (3 / 4 :: real) \<and> 3 / 4 \<le> y_max \<and> (\<exists>r. calcular_Energias (3 / 4) = Some r)
     \<and> x_max < ajusta (3 / 4) \<and> ajusta (3 / 4) < y_max
     \<and> 0 \<le> 2 * (m * g * y_max - m * g * ajusta (3 / 4)) / m)"
proof -
  have a: "0 \<le> (1 / 4 :: real)" "1 / 4 \<le> y_max" "0 < ajusta (1 / 4) \<and> ajusta (1 / 4) < x_max"
    by (simp_all add: ajusta_def isclose_zero x_max_def y_max_def)
  have b: "0 \<le> (3 / 4 :: real)" "3 / 4 \<le> y_max" "x_max < ajusta (3 / 4) \<and> ajusta (3 / 4) < y_max"
    by (simp_all add: ajusta_def isclose_zero x_max_def y_max_def)
  show ?thesis
    using a b total_on_domain [OF a(1) a(2)] total_on_domain [OF b(1) b(2)] by blast
qed

section \<open>Conservation of the mechanical energy\<close>




section \<open>Properties of the rounding\<close>

subsection \<open>Evaluating \<open>fl\<close>\<close>

lemma rne_eqI:
  assumes "\<bar>q - of_int n\<bar> < 1 / 2"
  shows "rne q = n"
proof (cases "of_int n \<le> q")
  case True
  then have f: "\<lfloor>q\<rfloor> = n" using assms by (intro floor_unique) linarith+
  show ?thesis unfolding rne_def Let_def f using assms True by simp
next
  case False
  have "of_int (n - 1) \<le> q" "q < of_int (n - 1) + 1" using assms False by simp_all
  then have f: "\<lfloor>q\<rfloor> = n - 1" by (rule floor_unique)
  have d: "1 / 2 < q - of_int (n - 1)" using assms False by simp
  then have d': "\<not> q - of_int (n - 1) < 1 / 2" by simp
  show ?thesis unfolding rne_def Let_def f using d d' by simp
qed

lemma rne_of_int: "rne (of_int n) = n"
  by (rule rne_eqI) simp

lemma rne_range: "\<lfloor>q\<rfloor> \<le> rne q \<and> rne q \<le> \<lfloor>q\<rfloor> + 1"
  unfolding rne_def Let_def by simp

lemma rne_mono:
  assumes "q \<le> q'"
  shows "rne q \<le> rne q'"
proof (cases "\<lfloor>q\<rfloor> = \<lfloor>q'\<rfloor>")
  case True
  have "q - of_int \<lfloor>q\<rfloor> \<le> q' - of_int \<lfloor>q\<rfloor>" using assms by simp
  then show ?thesis unfolding rne_def Let_def True [symmetric] by auto
next
  case False
  then have "\<lfloor>q\<rfloor> < \<lfloor>q'\<rfloor>" using floor_mono [OF assms] by simp
  then show ?thesis using rne_range [of q] rne_range [of q'] by linarith
qed

lemma expo_eqI:
  assumes "0 < r" "2 powr of_int e \<le> r" "r < 2 powr (of_int e + 1)"
  shows "expo r = e"
  unfolding expo_def using assms floor_log_eq_powr_iff [of "\<bar>r\<bar>" 2 e] by simp

lemma expo_bounds:
  assumes "0 < r"
  shows "2 powr of_int (expo r) \<le> r" "r < 2 powr (of_int (expo r) + 1)"
  using assms floor_log_eq_powr_iff [of "\<bar>r\<bar>" 2 "expo r"] unfolding expo_def by simp_all

lemma fl_eqI:
  assumes "0 < r" "2 powr of_int e \<le> r" "r < 2 powr (of_int e + 1)"
    and "rne (r / 2 powr (of_int e - 52)) = n"
  shows "fl r = 2 powr (of_int e - 52) * of_int n"
proof -
  have "expo r = e" using assms(1-3) by (rule expo_eqI)
  then show ?thesis unfolding fl_def ulp_def using assms(1,4) by simp
qed

lemma fl_eval_rne:
  fixes j :: nat
  assumes "0 < r" "2 ^ 52 \<le> r * 2 ^ j" "r * 2 ^ j < 2 ^ 53" "rne (r * 2 ^ j) = n"
  shows "fl r = of_int n / 2 ^ j"
proof -
  define e :: int where "e = 52 - int j"
  have u: "2 powr (of_int e - 52) = 1 / (2 :: real) ^ j"
    unfolding e_def by (simp add: powr_minus_divide powr_realpow)
  have lo: "2 powr of_int e = (2 :: real) ^ 52 / 2 ^ j"
    unfolding e_def by (simp add: powr_diff powr_realpow)
  have hi: "2 powr (of_int e + 1) = (2 :: real) ^ 53 / 2 ^ j"
    unfolding e_def by (simp add: powr_diff powr_add powr_realpow)
  have a: "2 powr of_int e \<le> r" unfolding lo using assms(2) by (simp add: field_simps)
  have b: "r < 2 powr (of_int e + 1)" unfolding hi using assms(3) by (simp add: field_simps)
  have "r / 2 powr (of_int e - 52) = r * 2 ^ j" unfolding u by simp
  then have c: "rne (r / 2 powr (of_int e - 52)) = n" using assms(4) by simp
  show ?thesis using fl_eqI [OF assms(1) a b c] unfolding u by simp
qed

lemma fl_eval:
  fixes j :: nat
  assumes "0 < r" "2 ^ 52 \<le> r * 2 ^ j" "r * 2 ^ j < 2 ^ 53" "\<bar>r * 2 ^ j - of_int n\<bar> < 1 / 2"
  shows "fl r = of_int n / 2 ^ j"
  using assms(1-3) rne_eqI [OF assms(4)] by (rule fl_eval_rne)



lemma fl_zero: "fl 0 = 0"
  by (simp add: fl_def)


subsection \<open>Monotonicity and idempotence\<close>

lemma ulp_pos: "0 < ulp r"
  by (simp add: ulp_def)

lemma ulp_eq: "ulp r = 2 powr of_int (expo r) / 2 ^ 52"
  by (simp add: ulp_def powr_diff)

lemma powr_quot52: "2 powr a / 2 powr (a - 52) = (2 :: real) ^ 52"
proof -
  have e: "2 powr (a - 52) = 2 powr a / (2 :: real) ^ 52" by (simp add: powr_diff)
  have "(2 :: real) powr a \<noteq> 0" by simp
  then show ?thesis unfolding e by simp
qed

lemma powr_times52: "2 powr (a - 52) * (2 :: real) ^ 52 = 2 powr a"
proof -
  have e: "2 powr (a - 52) = 2 powr a / (2 :: real) ^ 52" by (simp add: powr_diff)
  show ?thesis unfolding e by simp
qed

lemma fl_pos_form: "0 < r \<Longrightarrow> fl r = ulp r * of_int (rne (r / ulp r))"
  by (simp add: fl_def)

lemma quot_bounds:
  assumes "0 < r"
  shows "2 ^ 52 \<le> r / ulp r" "r / ulp r < 2 ^ 53"
proof -
  let ?p = "2 powr of_int (expo r) :: real"
  have p: "0 < ?p" by simp
  have lo: "?p \<le> r" and hi: "r < 2 * ?p"
    using expo_bounds [OF assms] by (simp_all add: powr_add)
  have q: "r / ulp r = r / ?p * 2 ^ 52" unfolding ulp_eq by simp
  have "1 \<le> r / ?p" using lo p by simp
  then have "1 * 2 ^ 52 \<le> r / ?p * 2 ^ 52" by (intro mult_right_mono) simp_all
  then show "2 ^ 52 \<le> r / ulp r" unfolding q by (simp only: mult_1)
  have "r / ?p < 2" using hi p by (simp add: field_simps)
  then have "r / ?p * 2 ^ 52 < 2 * 2 ^ 52" by (intro mult_strict_right_mono) simp_all
  then show "r / ulp r < 2 ^ 53" unfolding q by simp
qed

lemma rne_quot_bounds:
  assumes "0 < r"
  shows "2 ^ 52 \<le> rne (r / ulp r)" "rne (r / ulp r) \<le> 2 ^ 53"
proof -
  have "rne (of_int (2 ^ 52)) \<le> rne (r / ulp r)"
    using quot_bounds(1) [OF assms] by (intro rne_mono) simp
  then show "2 ^ 52 \<le> rne (r / ulp r)" unfolding rne_of_int .
  have "rne (r / ulp r) \<le> rne (of_int (2 ^ 53))"
    using quot_bounds(2) [OF assms] by (intro rne_mono) simp
  then show "rne (r / ulp r) \<le> 2 ^ 53" unfolding rne_of_int .
qed

lemma fl_bounds:
  assumes "0 < r"
  shows "2 powr of_int (expo r) \<le> fl r" "fl r \<le> 2 powr (of_int (expo r) + 1)"
proof -
  let ?n = "rne (r / ulp r)"
  have a: "(2 :: real) ^ 52 \<le> of_int ?n" using rne_quot_bounds(1) [OF assms]
    by (metis of_int_le_iff of_int_numeral of_int_power)
  have b: "of_int ?n \<le> (2 :: real) ^ 53" using rne_quot_bounds(2) [OF assms]
    by (metis of_int_le_iff of_int_numeral of_int_power)
  have f: "fl r = 2 powr of_int (expo r) * (of_int ?n / 2 ^ 52)"
    unfolding fl_pos_form [OF assms] ulp_eq by simp
  have "1 \<le> of_int ?n / (2 :: real) ^ 52" using a by simp
  then have "(2 :: real) powr of_int (expo r) * 1
      \<le> 2 powr of_int (expo r) * (of_int ?n / 2 ^ 52)"
    by (intro mult_left_mono) simp_all
  then show "2 powr of_int (expo r) \<le> fl r" unfolding f by simp
  have "of_int ?n / (2 :: real) ^ 52 \<le> 2" using b by simp
  then have "(2 :: real) powr of_int (expo r) * (of_int ?n / 2 ^ 52)
      \<le> 2 powr of_int (expo r) * 2"
    by (intro mult_left_mono) simp_all
  then show "fl r \<le> 2 powr (of_int (expo r) + 1)" unfolding f by (simp add: powr_add)
qed

lemma fl_pos:
  assumes "0 < r"
  shows "0 < fl r"
proof -
  have "(0 :: real) < 2 powr of_int (expo r)" by simp
  then show ?thesis using fl_bounds(1) [OF assms] by linarith
qed

lemma expo_mono:
  assumes "0 < r" "r \<le> s"
  shows "expo r \<le> expo s"
  unfolding expo_def using assms by (intro floor_mono) simp

lemma fl_mono_pos:
  assumes "0 < r" "r \<le> s"
  shows "fl r \<le> fl s"
proof -
  have s: "0 < s" using assms by simp
  show ?thesis
  proof (cases "expo r = expo s")
    case True
    then have u: "ulp r = ulp s" by (simp add: ulp_def)
    have "r / ulp s \<le> s / ulp s" using assms(2) ulp_pos [of s] by (simp add: divide_right_mono)
    then have "rne (r / ulp s) \<le> rne (s / ulp s)" by (rule rne_mono)
    then have "ulp s * of_int (rne (r / ulp s)) \<le> ulp s * of_int (rne (s / ulp s))"
      using ulp_pos [of s] by (intro mult_left_mono) simp_all
    then show ?thesis unfolding fl_pos_form [OF assms(1)] fl_pos_form [OF s] u .
  next
    case False
    then have "expo r + 1 \<le> expo s" using expo_mono [OF assms] by simp
    then have "(of_int (expo r) + 1 :: real) \<le> of_int (expo s)" by linarith
    then have "2 powr (of_int (expo r) + 1) \<le> (2 powr of_int (expo s) :: real)" by simp
    then show ?thesis using fl_bounds(2) [OF assms(1)] fl_bounds(1) [OF s] by linarith
  qed
qed

lemma fl_mono_nonneg:
  assumes "0 \<le> r" "r \<le> s"
  shows "fl r \<le> fl s"
proof (cases "r = 0")
  case True
  show ?thesis
  proof (cases "s = 0")
    case True
    then show ?thesis using \<open>r = 0\<close> by simp
  next
    case False
    then have "0 < fl s" using assms \<open>r = 0\<close> by (intro fl_pos) simp
    then show ?thesis using \<open>r = 0\<close> by (simp add: fl_zero)
  qed
next
  case False
  then show ?thesis using assms by (intro fl_mono_pos) simp_all
qed

lemma fl_nonneg: "0 \<le> r \<Longrightarrow> 0 \<le> fl r"
  using fl_mono_nonneg [of 0 r] by (simp add: fl_zero)

lemma fl_idem_pos:
  assumes "0 < r"
  shows "fl (fl r) = fl r"
proof -
  let ?e = "expo r"
  let ?n = "rne (r / ulp r)"
  have f: "fl r = ulp r * of_int ?n" using assms by (rule fl_pos_form)
  have p: "0 < fl r" using assms by (rule fl_pos)
  show ?thesis
  proof (cases "?n = 2 ^ 53")
    case True
    have n: "(of_int ?n :: real) = 2 ^ 53" using True by simp
    have "fl r = ulp r * 2 ^ 53" using f n by simp
    then have v: "fl r = 2 powr (of_int (?e + 1))"
      unfolding ulp_eq by (simp add: powr_add)
    have "2 powr (of_int (?e + 1)) / 2 powr (of_int (?e + 1) - 52) = (of_int (2 ^ 52) :: real)"
      unfolding powr_quot52 by simp
    then have "rne (fl r / 2 powr (of_int (?e + 1) - 52)) = 2 ^ 52"
      unfolding v by (simp only: rne_of_int)
    moreover have "2 powr of_int (?e + 1) \<le> fl r" "fl r < 2 powr (of_int (?e + 1) + 1)"
      unfolding v by simp_all
    ultimately have "fl (fl r) = 2 powr (of_int (?e + 1) - 52) * of_int (2 ^ 52)"
      by (intro fl_eqI [OF p])
    also have "\<dots> = 2 powr (of_int (?e + 1) - 52) * (2 :: real) ^ 52" by simp
    also have "\<dots> = 2 powr (of_int (?e + 1))" by (rule powr_times52)
    finally show ?thesis unfolding v .
  next
    case False
    then have "?n < 2 ^ 53" using rne_quot_bounds(2) [OF assms] by simp
    then have lt: "of_int ?n < (2 :: real) ^ 53"
      by (metis of_int_less_iff of_int_numeral of_int_power)
    have "of_int ?n / (2 :: real) ^ 52 < 2" using lt by simp
    then have "(2 :: real) powr of_int ?e * (of_int ?n / 2 ^ 52) < 2 powr of_int ?e * 2"
      by (intro mult_strict_left_mono) simp_all
    moreover have "fl r = 2 powr of_int ?e * (of_int ?n / 2 ^ 52)" unfolding f ulp_eq by simp
    moreover have "2 powr (of_int ?e + 1) = (2 :: real) powr of_int ?e * 2" by (simp add: powr_add)
    ultimately have hi: "fl r < 2 powr (of_int ?e + 1)" by (simp only:)
    have lo: "2 powr of_int ?e \<le> fl r" using fl_bounds(1) [OF assms] .
    have "fl r / 2 powr (of_int ?e - 52) = of_int ?n"
      unfolding f ulp_def by simp
    then have "rne (fl r / 2 powr (of_int ?e - 52)) = ?n" by (simp add: rne_of_int)
    then have "fl (fl r) = 2 powr (of_int ?e - 52) * of_int ?n"
      by (intro fl_eqI [OF p lo hi])
    then show ?thesis unfolding f ulp_def .
  qed
qed

lemma fl_idem_nonneg: "0 \<le> r \<Longrightarrow> fl (fl r) = fl r"
  using fl_idem_pos [of r] by (cases "r = 0") (simp_all add: fl_zero)

subsection \<open>The doubles below and above\<close>

lemma ulp_eval:
  fixes j :: nat
  assumes "0 < r" "2 ^ 52 \<le> r * 2 ^ j" "r * 2 ^ j < 2 ^ 53"
  shows "ulp r = 1 / 2 ^ j"
proof -
  define e :: int where "e = 52 - int j"
  have lo: "2 powr of_int e = (2 :: real) ^ 52 / 2 ^ j"
    unfolding e_def by (simp add: powr_diff powr_realpow)
  have hi: "2 powr (of_int e + 1) = (2 :: real) ^ 53 / 2 ^ j"
    unfolding e_def by (simp add: powr_diff powr_add powr_realpow)
  have a: "2 powr of_int e \<le> r" unfolding lo using assms(2) by (simp add: field_simps)
  have b: "r < 2 powr (of_int e + 1)" unfolding hi using assms(3) by (simp add: field_simps)
  have "expo r = e" using assms(1) a b by (rule expo_eqI)
  then show ?thesis unfolding ulp_def e_def by (simp add: powr_minus_divide powr_realpow)
qed

lemma fl_up_eval:
  fixes j :: nat
  assumes "0 < r" "2 ^ 52 \<le> r * 2 ^ j" "r * 2 ^ j < 2 ^ 53"
    and "of_int n - 1 < r * 2 ^ j" "r * 2 ^ j \<le> of_int n"
  shows "fl_up r = of_int n / 2 ^ j"
proof -
  have c: "\<lceil>r * 2 ^ j\<rceil> = n" using assms(4,5) by (intro ceiling_unique)
  show ?thesis unfolding fl_up_def ulp_eval [OF assms(1-3)] using c by simp
qed

lemma fl_dn_nonneg: "0 \<le> r \<Longrightarrow> 0 \<le> fl_dn r"
  unfolding fl_dn_def using ulp_pos [of r] by (intro mult_nonneg_nonneg) simp_all

lemma fl_up_nonneg: "0 \<le> r \<Longrightarrow> 0 \<le> fl_up r"
proof -
  assume "0 \<le> r"
  then have "0 \<le> r / ulp r" using ulp_pos [of r] by simp
  then have "0 \<le> \<lceil>r / ulp r\<rceil>" by (simp add: ceiling_le_iff [symmetric] order_trans [of _ 0])
  then show ?thesis unfolding fl_up_def using ulp_pos [of r] by (intro mult_nonneg_nonneg) simp_all
qed

lemma fl_up_zero: "fl_up 0 = 0"
  by (simp add: fl_up_def)

lemma fl_dn_zero: "fl_dn 0 = 0"
  by (simp add: fl_dn_def)

lemma ceiling_quot_bounds:
  assumes "0 < r"
  shows "2 ^ 52 \<le> \<lceil>r / ulp r\<rceil>" "\<lceil>r / ulp r\<rceil> \<le> 2 ^ 53"
proof -
  have "\<lceil>(of_int (2 ^ 52) :: real)\<rceil> \<le> \<lceil>r / ulp r\<rceil>"
    using quot_bounds(1) [OF assms] by (intro ceiling_mono) simp
  then show "2 ^ 52 \<le> \<lceil>r / ulp r\<rceil>" by simp
  have "\<lceil>r / ulp r\<rceil> \<le> \<lceil>(of_int (2 ^ 53) :: real)\<rceil>"
    using quot_bounds(2) [OF assms] by (intro ceiling_mono) simp
  then show "\<lceil>r / ulp r\<rceil> \<le> 2 ^ 53" by simp
qed

lemma fl_up_bounds:
  assumes "0 < r"
  shows "2 powr of_int (expo r) \<le> fl_up r" "fl_up r \<le> 2 powr (of_int (expo r) + 1)"
proof -
  let ?n = "\<lceil>r / ulp r\<rceil>"
  have "real_of_int (2 ^ 52) \<le> of_int ?n"
    using ceiling_quot_bounds(1) [OF assms] by (simp only: of_int_le_iff)
  then have a: "(2 :: real) ^ 52 \<le> of_int ?n" by simp
  have "real_of_int ?n \<le> of_int (2 ^ 53)"
    using ceiling_quot_bounds(2) [OF assms] by (simp only: of_int_le_iff)
  then have b: "of_int ?n \<le> (2 :: real) ^ 53" by simp
  have f: "fl_up r = 2 powr of_int (expo r) * (of_int ?n / 2 ^ 52)"
    unfolding fl_up_def ulp_eq by simp
  have "1 \<le> of_int ?n / (2 :: real) ^ 52" using a by simp
  then have "(2 :: real) powr of_int (expo r) * 1
      \<le> 2 powr of_int (expo r) * (of_int ?n / 2 ^ 52)"
    by (intro mult_left_mono) simp_all
  then show "2 powr of_int (expo r) \<le> fl_up r" unfolding f by simp
  have "of_int ?n / (2 :: real) ^ 52 \<le> 2" using b by simp
  then have "(2 :: real) powr of_int (expo r) * (of_int ?n / 2 ^ 52)
      \<le> 2 powr of_int (expo r) * 2"
    by (intro mult_left_mono) simp_all
  then show "fl_up r \<le> 2 powr (of_int (expo r) + 1)" unfolding f by (simp add: powr_add)
qed

lemma fl_up_mono_pos:
  assumes "0 < r" "r \<le> s"
  shows "fl_up r \<le> fl_up s"
proof -
  have s: "0 < s" using assms by simp
  show ?thesis
  proof (cases "expo r = expo s")
    case True
    then have u: "ulp r = ulp s" by (simp add: ulp_def)
    have "r / ulp s \<le> s / ulp s" using assms(2) ulp_pos [of s] by (simp add: divide_right_mono)
    then have "\<lceil>r / ulp s\<rceil> \<le> \<lceil>s / ulp s\<rceil>" by (rule ceiling_mono)
    then have "ulp s * of_int \<lceil>r / ulp s\<rceil> \<le> ulp s * of_int \<lceil>s / ulp s\<rceil>"
      using ulp_pos [of s] by (intro mult_left_mono) simp_all
    then show ?thesis unfolding fl_up_def u .
  next
    case False
    then have "expo r + 1 \<le> expo s" using expo_mono [OF assms] by simp
    then have "(of_int (expo r) + 1 :: real) \<le> of_int (expo s)" by linarith
    then have "2 powr (of_int (expo r) + 1) \<le> (2 powr of_int (expo s) :: real)" by simp
    then show ?thesis using fl_up_bounds(2) [OF assms(1)] fl_up_bounds(1) [OF s] by linarith
  qed
qed

lemma fl_up_mono_nonneg:
  assumes "0 \<le> r" "r \<le> s"
  shows "fl_up r \<le> fl_up s"
proof (cases "r = 0")
  case True
  have "0 \<le> fl_up s" using assms by (intro fl_up_nonneg) simp
  then show ?thesis using True by (simp add: fl_up_zero)
next
  case False
  then show ?thesis using assms by (intro fl_up_mono_pos) simp_all
qed

subsection \<open>Faithful squares\<close>

lemma faithful_nonneg: "faithful sq \<Longrightarrow> 0 \<le> sq r"
  unfolding faithful_def using fl_dn_nonneg [of "r\<^sup>2"] by (meson order_trans zero_le_power2)

lemma faithful_zero: "faithful sq \<Longrightarrow> sq 0 = 0"
proof -
  assume f: "faithful sq"
  have "sq 0 \<le> fl_up (0\<^sup>2)" using f unfolding faithful_def by blast
  then have "sq 0 \<le> 0" by (simp add: fl_up_zero)
  then show ?thesis using faithful_nonneg [OF f, of 0] by simp
qed

lemma faithful_le:
  assumes "faithful sq" "r\<^sup>2 \<le> b"
  shows "sq r \<le> fl_up b"
proof -
  have "sq r \<le> fl_up (r\<^sup>2)" using assms(1) unfolding faithful_def by blast
  moreover have "fl_up (r\<^sup>2) \<le> fl_up b" using assms(2) by (intro fl_up_mono_nonneg) simp_all
  ultimately show ?thesis by simp
qed

text \<open>The correctly rounded square is faithful.\<close>

lemma rne_le_ceiling: "rne q \<le> \<lceil>q\<rceil>"
proof (cases "q = of_int \<lfloor>q\<rfloor>")
  case True
  then have "rne q = \<lfloor>q\<rfloor>" using rne_of_int [of "\<lfloor>q\<rfloor>"] by simp
  then show ?thesis using floor_le_ceiling [of q] by simp
next
  case False
  then have "of_int \<lfloor>q\<rfloor> < q" using of_int_floor_le [of q] by linarith
  then have "\<lfloor>q\<rfloor> < \<lceil>q\<rceil>" by (simp add: less_ceiling_iff)
  then show ?thesis using rne_range [of q] by simp
qed

lemma faithful_rn: "faithful (\<lambda>r. fl (r\<^sup>2))"
  unfolding faithful_def
proof (intro allI conjI)
  fix r :: real
  show "fl_dn (r\<^sup>2) \<le> fl (r\<^sup>2)"
  proof (cases "r = 0")
    case True
    then show ?thesis by (simp add: fl_dn_zero fl_zero)
  next
    case False
    then have p: "0 < r\<^sup>2" by simp
    have "\<lfloor>r\<^sup>2 / ulp (r\<^sup>2)\<rfloor> \<le> rne (r\<^sup>2 / ulp (r\<^sup>2))" using rne_range by blast
    then show ?thesis unfolding fl_dn_def fl_pos_form [OF p]
      using ulp_pos [of "r\<^sup>2"] by (intro mult_left_mono) simp_all
  qed
  show "fl (r\<^sup>2) \<le> fl_up (r\<^sup>2)"
  proof (cases "r = 0")
    case True
    then show ?thesis by (simp add: fl_up_zero fl_zero)
  next
    case False
    then have p: "0 < r\<^sup>2" by simp
    have "rne (r\<^sup>2 / ulp (r\<^sup>2)) \<le> \<lceil>r\<^sup>2 / ulp (r\<^sup>2)\<rceil>" by (rule rne_le_ceiling)
    then show ?thesis unfolding fl_up_def fl_pos_form [OF p]
      using ulp_pos [of "r\<^sup>2"] by (intro mult_left_mono) simp_all
  qed
qed

subsection \<open>The doubles of the constants\<close>

lemma fl_g: "fl (981 / 100) = 5522539043063071 / 562949953421312"
proof -
  have "fl (981 / 100) = of_int 5522539043063071 / 2 ^ 49" by (rule fl_eval) simp_all
  then show ?thesis by simp
qed

lemma fl_mg: "fl (248514256937838195 / 281474976710656) = 1941517632326861 / 2199023255552"
proof -
  have "fl (248514256937838195 / 281474976710656) = of_int 7766070529307444 / 2 ^ 43" by (rule fl_eval) simp_all
  then show ?thesis by simp
qed

lemma fl_MG: "fl (1941517632326861 / 2199023255552) = 1941517632326861 / 2199023255552"
proof -
  have "fl (1941517632326861 / 2199023255552) = of_int 7766070529307444 / 2 ^ 43" by (rule fl_eval) simp_all
  then show ?thesis by simp
qed

lemma fl_t180: "fl (248514256937838195 / 140737488355328) = 1941517632326861 / 1099511627776"
proof -
  have "fl (248514256937838195 / 140737488355328) = of_int 7766070529307444 / 2 ^ 42" by (rule fl_eval) simp_all
  then show ?thesis by simp
qed

lemma fl_T180: "fl (1941517632326861 / 1099511627776) = 1941517632326861 / 1099511627776"
proof -
  have "fl (1941517632326861 / 1099511627776) = of_int 7766070529307444 / 2 ^ 42" by (rule fl_eval) simp_all
  then show ?thesis by simp
qed

lemma fl_quarter: "fl (1 / 4) = 1 / 4"
proof -
  have "fl (1 / 4) = of_int 4503599627370496 / 2 ^ 54" by (rule fl_eval) simp_all
  then show ?thesis by simp
qed

lemma fl_up_quarter: "fl_up (1 / 4) = 1 / 4"
proof -
  have "fl_up (1 / 4) = of_int 4503599627370496 / 2 ^ 54" by (rule fl_up_eval) simp_all
  then show ?thesis by simp
qed

lemma fl_half: "fl (1 / 2) = 1 / 2"
proof -
  have "fl (1 / 2) = of_int 4503599627370496 / 2 ^ 53" by (rule fl_eval) simp_all
  then show ?thesis by simp
qed

lemma fl_k: "fl (1941517632326861 / 274877906944) = 1941517632326861 / 274877906944"
proof -
  have "fl (1941517632326861 / 274877906944) = of_int 7766070529307444 / 2 ^ 40" by (rule fl_eval) simp_all
  then show ?thesis by simp
qed

lemma fl_hk: "fl (1941517632326861 / 549755813888) = 1941517632326861 / 549755813888"
proof -
  have "fl (1941517632326861 / 549755813888) = of_int 7766070529307444 / 2 ^ 41" by (rule fl_eval) simp_all
  then show ?thesis by simp
qed

lemma fl_atol: "fl (1 / 1000) = 1152921504606847 / 1152921504606846976"
proof -
  have "fl (1 / 1000) = of_int 4611686018427388 / 2 ^ 62" by (rule fl_eval) simp_all
  then show ?thesis by simp
qed


subsection \<open>The doubles met on adjusted positions\<close>

lemma fl_xa: "fl (562949953421311 / 1125899906842624) = 562949953421311 / 1125899906842624"
proof -
  have "fl (562949953421311 / 1125899906842624) = of_int 9007199254740976 / 2 ^ 54" by (rule fl_eval) simp_all
  then show ?thesis by simp
qed

lemma fl_up_x2a: "fl_up (316912650057056224474268958721 / 1267650600228229401496703205376) = 9007199254740961 / 36028797018963968"
proof -
  have "fl_up (316912650057056224474268958721 / 1267650600228229401496703205376) = of_int 9007199254740961 / 2 ^ 55" by (rule fl_up_eval) simp_all
  then show ?thesis by simp
qed

lemma fl_ua: "fl (17487636170960937529728237253421 / 19807040628566084398385987584) = 7766070529307417 / 8796093022208"
proof -
  have "fl (17487636170960937529728237253421 / 19807040628566084398385987584) = of_int 7766070529307417 / 2 ^ 43" by (rule fl_eval) simp_all
  then show ?thesis by simp
qed

lemma fl_x60: "fl (576460752303423487 / 1152921504606846976) = 1 / 2"
proof -
  have "fl (576460752303423487 / 1152921504606846976) = of_int 9007199254740992 / 2 ^ 54" by (rule fl_eval) simp_all
  then show ?thesis by simp
qed

lemma fl_xw: "fl (511 / 1024) = 511 / 1024"
proof -
  have "fl (511 / 1024) = of_int 8989607068696576 / 2 ^ 54" by (rule fl_eval) simp_all
  then show ?thesis by simp
qed

lemma fl_x2w: "fl (261121 / 1048576) = 261121 / 1048576"
proof -
  have "fl (261121 / 1048576) = of_int 8972049242390528 / 2 ^ 55" by (rule fl_eval) simp_all
  then show ?thesis by simp
qed

lemma fl_uw: "fl (506971025670822271181 / 576460752303423488) = 3867881970755175 / 4398046511104"
proof -
  have "fl (506971025670822271181 / 576460752303423488) = of_int 7735763941510350 / 2 ^ 43" by (rule fl_eval) simp_all
  then show ?thesis by simp
qed

subsection \<open>The doubles met at the position 9/16\<close>










section \<open>\<open>calcular_Energias_d\<close> on adjusted positions\<close>

lemma g_d_val: "g_d = 5522539043063071 / 562949953421312"
  unfolding g_d_def by (rule fl_g)

lemma mg_val: "fl (m * g_d) = 1941517632326861 / 2199023255552"
proof -
  have e: "m * g_d = 248514256937838195 / 281474976710656" by (simp add: m_def g_d_val)
  show ?thesis unfolding e by (rule fl_mg)
qed

lemma E_t_d_val: "fl (fl (m * g_d) * y_max) = 1941517632326861 / 2199023255552"
  unfolding mg_val y_max_def mult_1_right by (rule fl_MG)

lemma k_d_val: "k_d = 1941517632326861 / 274877906944"
proof -
  have e: "2 * m * g_d = 248514256937838195 / 140737488355328" by (simp add: m_def g_d_val)
  have a: "fl (2 * m * g_d) = 1941517632326861 / 1099511627776" unfolding e by (rule fl_t180)
  have b: "fl (1941517632326861 / 1099511627776 * y_max) = 1941517632326861 / 1099511627776"
    unfolding y_max_def mult_1_right by (rule fl_T180)
  have x2: "x_max\<^sup>2 = 1 / 4" by (simp add: x_max_def power2_eq_square)
  have c: "fl (x_max\<^sup>2) = 1 / 4" unfolding x2 by (rule fl_quarter)
  have q: "(1941517632326861 / 1099511627776) / (1 / 4 :: real) = 1941517632326861 / 274877906944"
    by simp
  show ?thesis unfolding k_d_def a b c q by (rule fl_k)
qed

lemma hk_val: "fl ((1 / 2) * k_d) = 1941517632326861 / 549755813888"
proof -
  have e: "(1 / 2) * k_d = 1941517632326861 / 549755813888" by (simp add: k_d_val)
  show ?thesis unfolding e by (rule fl_hk)
qed


lemma atol_idem: "fl (fl (1 / 1000)) = fl (1 / 1000)"
  by (rule fl_idem_nonneg) simp

lemma isclose_d_zero: "isclose_d y0 0 (fl (1 / 1000)) \<longleftrightarrow> \<bar>fl y0\<bar> \<le> fl (1 / 1000)"
  by (simp add: isclose_d_def fl_zero atol_idem)

lemma snap_d:
  assumes "0 \<le> y0" "y0 \<le> fl (1 / 1000)"
  shows "isclose_d y0 0 (fl (1 / 1000))"
proof -
  have "0 \<le> fl y0" using assms(1) by (rule fl_nonneg)
  moreover have "fl y0 \<le> fl (fl (1 / 1000))" using assms by (rule fl_mono_nonneg)
  ultimately show ?thesis unfolding isclose_d_zero atol_idem by simp
qed

lemma deformation_d:
  assumes "0 \<le> y0" "y0 \<le> fl (1 / 1000)"
  shows "y0 < x_max" "0 < fl (x_max - y0)" "fl (x_max - y0) \<le> x_max"
    "faithful sq \<Longrightarrow> sq (fl (x_max - y0)) \<le> 1 / 4"
proof -
  show lt: "y0 < x_max" using assms(2) unfolding fl_atol by (simp add: x_max_def)
  then show p: "0 < fl (x_max - y0)" by (intro fl_pos) simp
  have "fl (x_max - y0) \<le> fl (1 / 2)"
    using lt assms(1) by (intro fl_mono_pos) (simp_all add: x_max_def)
  then show u: "fl (x_max - y0) \<le> x_max" unfolding fl_half x_max_def .
  have "(fl (x_max - y0))\<^sup>2 \<le> (1 / 2)\<^sup>2"
    using p u by (intro power_mono) (simp_all add: x_max_def)
  then have q: "(fl (x_max - y0))\<^sup>2 \<le> 1 / 4" by (simp add: power2_eq_square)
  show "sq (fl (x_max - y0)) \<le> 1 / 4" if "faithful sq"
    using faithful_le [OF that q] unfolding fl_up_quarter .
qed

lemma calc_d_snap:
  assumes f: "faithful sq" and y: "0 \<le> y0" "y0 \<le> fl (1 / 1000)"
  shows "calcular_Energias_d sq y0 =
    Some (fl (fl ((1 / 2) * k_d) * sq (fl (x_max - y0))), 0, 0,
          fl (fl ((1 / 2) * k_d) * sq (fl (x_max - y0))), 0, fl (x_max - y0))"
proof -
  let ?x = "fl (x_max - y0)"
  let ?U = "fl (fl ((1 / 2) * k_d) * sq ?x)"
  have s: "isclose_d y0 0 (fl (1 / 1000))" using y by (rule snap_d)
  have lt: "y0 < x_max" using y by (rule deformation_d(1))
  have "sq ?x < 2 ^ 1024" using deformation_d(4) [OF y f] by simp
  then have pw: "py_pow2_d sq ?x = Some (sq ?x)" by (simp add: py_pow2_d_def)
  have "0 \<le> fl ((1 / 2) * k_d) * sq ?x"
    unfolding hk_val using faithful_nonneg [OF f] by (intro mult_nonneg_nonneg) simp_all
  then have idem: "fl ?U = ?U" by (rule fl_idem_nonneg)
  have n1: "\<not> (x_max < (0 :: real) \<and> (0 :: real) < y_max)" by (simp add: x_max_def)
  have n2: "\<not> ((0 :: real) < 0 \<and> (0 :: real) < x_max)" by simp
  have z1: "fl (fl (m * g_d) * 0) = 0" by (simp add: fl_zero)
  have z2: "fl (fl ((1 / 2) * m) * sq 0) = 0" by (simp add: faithful_zero [OF f] fl_zero)
  have z3: "fl (fl (0 + 0) + ?U) = ?U" using idem by (simp add: fl_zero)
  show ?thesis
    unfolding calcular_Energias_d_def Let_def if_P [OF s] if_P [OF lt] pw option.case
      if_not_P [OF n1] if_not_P [OF n2] z1 z2 z3 ..
qed

lemma energy_d_snap_le:
  assumes f: "faithful sq" and y: "0 \<le> y0" "y0 \<le> fl (1 / 1000)"
  shows "fl (fl ((1 / 2) * k_d) * sq (fl (x_max - y0))) \<le> fl (fl (m * g_d) * y_max)"
proof -
  let ?q = "sq (fl (x_max - y0))"
  have "0 \<le> ?q" using f by (rule faithful_nonneg)
  moreover have "?q \<le> 1 / 4" using y f by (rule deformation_d(4))
  ultimately have
    "fl (1941517632326861 / 549755813888 * ?q) \<le> fl (1941517632326861 / 549755813888 * (1 / 4))"
    by (intro fl_mono_nonneg mult_nonneg_nonneg mult_left_mono) simp_all
  moreover have "1941517632326861 / 549755813888 * (1 / 4 :: real) = 1941517632326861 / 2199023255552"
    by simp
  ultimately show ?thesis unfolding hk_val E_t_d_val using fl_MG by (simp only:)
qed

lemma energy_d_snap_less:
  assumes f: "faithful sq" and y: "1 / 2 ^ 50 \<le> y0" "y0 \<le> fl (1 / 1000)"
  shows "fl (x_max - y0) < x_max"
    "fl (fl ((1 / 2) * k_d) * sq (fl (x_max - y0))) < fl (fl (m * g_d) * y_max)"
proof -
  let ?x = "fl (x_max - y0)"
  let ?q = "sq ?x"
  have y0: "0 \<le> y0" using y(1) by (rule order_trans [rotated]) simp
  have lt: "y0 < x_max" using y0 y(2) by (rule deformation_d(1))
  have p: "0 < ?x" using y0 y(2) by (rule deformation_d(2))
  have "x_max - y0 \<le> 562949953421311 / 1125899906842624"
    using y(1) by (simp add: x_max_def)
  then have "?x \<le> fl (562949953421311 / 1125899906842624)"
    using lt by (intro fl_mono_pos) simp_all
  then have xa: "?x \<le> 562949953421311 / 1125899906842624" unfolding fl_xa .
  then show "?x < x_max" by (simp add: x_max_def)
  have "?x\<^sup>2 \<le> (562949953421311 / 1125899906842624)\<^sup>2"
    using p xa by (intro power_mono) simp_all
  then have "?x\<^sup>2
      \<le> 316912650057056224474268958721 / 1267650600228229401496703205376"
    by (simp add: power2_eq_square)
  then have qa: "?q \<le> 9007199254740961 / 36028797018963968"
    using faithful_le [OF f] unfolding fl_up_x2a [symmetric] by blast
  have "0 \<le> ?q" using f by (rule faithful_nonneg)
  then have "fl (1941517632326861 / 549755813888 * ?q)
      \<le> fl (1941517632326861 / 549755813888 * (9007199254740961 / 36028797018963968))"
    using qa by (intro fl_mono_nonneg mult_nonneg_nonneg mult_left_mono) simp_all
  moreover have "1941517632326861 / 549755813888 * (9007199254740961 / 36028797018963968 :: real)
      = 17487636170960937529728237253421 / 19807040628566084398385987584"
    by simp
  ultimately have "fl (1941517632326861 / 549755813888 * ?q) \<le> 7766070529307417 / 8796093022208"
    using fl_ua by (simp only:)
  moreover have "(7766070529307417 / 8796093022208 :: real) < 1941517632326861 / 2199023255552"
    by simp
  ultimately show "fl (fl ((1 / 2) * k_d) * ?q) < fl (fl (m * g_d) * y_max)"
    unfolding hk_val E_t_d_val by (rule le_less_trans)
qed

section \<open>Adjusted positions in double arithmetic\<close>

text \<open>
  C9, as stated: for every \<open>y\<close> with \<open>0 < y \<le> 0.001\<close> the result has deformation \<open>x_max - y\<close>
  (not \<open>x_max\<close>), gravitational energy 0, velocity 0, kinetic energy 0, and a total
  \<open>1/2 * k * (x_max - y)\<^sup>2\<close> strictly below \<open>m * g * y_max\<close>. In double arithmetic this fails
  at \<open>y = 2 ^ -60\<close>: the difference \<open>x_max - y\<close> rounds to \<open>x_max\<close>, and the total is the
  double \<open>m * g * y_max\<close> itself (the squares involved, of 1/2 and of 0, are exact).
\<close>

theorem snap_zone_counterexample:
  "(0 :: real) < 1 / 2 ^ 60 \<and> (1 / 2 ^ 60 :: real) \<le> 1 / 1000 \<and> 1 / 2 ^ 60 \<le> fl (1 / 1000)
   \<and> calcular_Energias_d (\<lambda>r. fl (r\<^sup>2)) (1 / 2 ^ 60)
       = Some (1941517632326861 / 2199023255552, 0, 0, 1941517632326861 / 2199023255552, 0, x_max)
   \<and> fl (fl (m * g_d) * y_max) = 1941517632326861 / 2199023255552"
proof -
  have a: "(0 :: real) \<le> 1 / 2 ^ 60" "(1 / 2 ^ 60 :: real) \<le> fl (1 / 1000)"
    unfolding fl_atol by simp_all
  have e: "x_max - 1 / 2 ^ 60 = 576460752303423487 / 1152921504606846976" by (simp add: x_max_def)
  have x: "fl (x_max - 1 / 2 ^ 60) = 1 / 2" unfolding e by (rule fl_x60)
  have q: "((1 / 2 :: real))\<^sup>2 = 1 / 4" by (simp add: power2_eq_square)
  have h: "1941517632326861 / 549755813888 * (1 / 4 :: real) = 1941517632326861 / 2199023255552" by simp
  have "calcular_Energias_d (\<lambda>r. fl (r\<^sup>2)) (1 / 2 ^ 60)
       = Some (1941517632326861 / 2199023255552, 0, 0, 1941517632326861 / 2199023255552, 0, 1 / 2)"
    unfolding calc_d_snap [OF faithful_rn a] x q fl_quarter hk_val h fl_MG ..
  then have "calcular_Energias_d (\<lambda>r. fl (r\<^sup>2)) (1 / 2 ^ 60)
       = Some (1941517632326861 / 2199023255552, 0, 0, 1941517632326861 / 2199023255552, 0, x_max)"
    by (simp add: x_max_def)
  moreover have "(0 :: real) < 1 / 2 ^ 60" "(1 / 2 ^ 60 :: real) \<le> 1 / 1000" by simp_all
  ultimately show ?thesis using a(2) E_t_d_val by blast
qed

text \<open>
  C9, amended: the deformation is computed from the position as given, before the
  adjustment, while the gravitational energy and the velocity use the adjusted
  position. So in double arithmetic, for every \<open>y\<close> with \<open>0 < y \<le> 0.001\<close> (the double
  nearest to 0.001) the result has deformation \<open>x\<close> the double nearest to \<open>x_max - y\<close>,
  with \<open>0 < x \<le> x_max\<close>, gravitational energy 0, velocity 0, kinetic energy 0, and a
  total equal to the elastic energy \<open>1/2 * k * x\<^sup>2\<close> as computed, which does not exceed
  the double \<open>m * g * y_max\<close>; for \<open>y \<ge> 2 ^ -50\<close> the deformation is strictly below
  \<open>x_max\<close> and the total strictly below \<open>m * g * y_max\<close>. This holds for every faithful
  square \<open>sq\<close>, so whichever neighbouring double the C library returns for \<open>x ** 2\<close>.
\<close>

theorem snap_zone_energy_d:
  assumes "faithful sq" "0 < y" "y \<le> fl (1 / 1000)"
  shows "\<exists>U x. calcular_Energias_d sq y = Some (U, 0, 0, U, 0, x)
           \<and> x = fl (x_max - y)
           \<and> U = fl (fl ((1 / 2) * k_d) * sq x)
           \<and> 0 < x \<and> x \<le> x_max
           \<and> U \<le> fl (fl (m * g_d) * y_max)
           \<and> (1 / 2 ^ 50 \<le> y \<longrightarrow> x < x_max \<and> U < fl (fl (m * g_d) * y_max))"
proof -
  have y0: "0 \<le> y" using assms(2) by simp
  let ?x = "fl (x_max - y)"
  let ?U = "fl (fl ((1 / 2) * k_d) * sq ?x)"
  have c: "calcular_Energias_d sq y = Some (?U, 0, 0, ?U, 0, ?x)"
    using assms(1) y0 assms(3) by (rule calc_d_snap)
  have p: "0 < ?x" using y0 assms(3) by (rule deformation_d(2))
  have u: "?x \<le> x_max" using y0 assms(3) by (rule deformation_d(3))
  have le: "?U \<le> fl (fl (m * g_d) * y_max)"
    using assms(1) y0 assms(3) by (rule energy_d_snap_le)
  have st: "1 / 2 ^ 50 \<le> y \<longrightarrow> ?x < x_max \<and> ?U < fl (fl (m * g_d) * y_max)"
    using energy_d_snap_less [OF assms(1) _ assms(3)] by blast
  show ?thesis using c p u le st by blast
qed

theorem snap_zone_energy_d_witness:
  "faithful (\<lambda>r. fl (r\<^sup>2)) \<and> (0 :: real) < 1 / 1024 \<and> 1 / 1024 \<le> fl (1 / 1000) \<and> (1 / 2 ^ 50 :: real) \<le> 1 / 1024
   \<and> calcular_Energias_d (\<lambda>r. fl (r\<^sup>2)) (1 / 1024)
       = Some (3867881970755175 / 4398046511104, 0, 0, 3867881970755175 / 4398046511104, 0, 511 / 1024)
   \<and> (511 / 1024 :: real) < x_max
   \<and> 3867881970755175 / 4398046511104 < fl (fl (m * g_d) * y_max)"
proof -
  have a: "(0 :: real) < 1 / 1024" "1 / 1024 \<le> fl (1 / 1000)" "(1 / 2 ^ 50 :: real) \<le> 1 / 1024"
    unfolding fl_atol by simp_all
  obtain U x where r: "calcular_Energias_d (\<lambda>r. fl (r\<^sup>2)) (1 / 1024) = Some (U, 0, 0, U, 0, x)"
    and x: "x = fl (x_max - 1 / 1024)"
    and U: "U = fl (fl ((1 / 2) * k_d) * fl (x\<^sup>2))"
    and s: "x < x_max" "U < fl (fl (m * g_d) * y_max)"
    using a(3) snap_zone_energy_d [OF faithful_rn a(1) a(2)] by blast
  have e: "x_max - 1 / 1024 = 511 / 1024" by (simp add: x_max_def)
  have xv: "x = 511 / 1024" unfolding x e by (rule fl_xw)
  have q: "(511 / 1024 :: real)\<^sup>2 = 261121 / 1048576" by (simp add: power2_eq_square)
  have h: "1941517632326861 / 549755813888 * (261121 / 1048576 :: real) = 506971025670822271181 / 576460752303423488"
    by simp
  have Uv: "U = 3867881970755175 / 4398046511104"
    unfolding U xv q fl_x2w hk_val h by (rule fl_uw)
  show ?thesis using faithful_rn a r s unfolding xv Uv by blast
qed

subsection \<open>The same positions in exact arithmetic\<close>

text \<open>
  Without rounding the deformation of a position \<open>0 < y \<le> 0.001\<close> is \<open>x_max - y\<close>, never
  \<open>x_max\<close>, and the total is strictly below \<open>m * g * y_max\<close> on the whole interval: the
  equalities at \<open>y = 2 ^ -60\<close> above come from the rounding of \<open>x_max - y\<close> alone.
\<close>

lemma snap_zone_exact:
  assumes "0 < y" "y \<le> 1 / 1000"
  shows "calcular_Energias y =
           Some ((1 / 2) * k * (x_max - y)\<^sup>2, 0, 0, (1 / 2) * k * (x_max - y)\<^sup>2, 0, x_max - y)
         \<and> x_max - y \<noteq> x_max
         \<and> (1 / 2) * k * (x_max - y)\<^sup>2 < m * g * y_max"
proof -
  have s: "\<bar>y\<bar> \<le> 1 / 1000" using assms by simp
  have "(1 / 2 - y) * (1 / 2 - y) < (1 / 2) * (1 / 2)"
    using assms by (intro mult_strict_mono) simp_all
  then have "(1 / 2) * k * (x_max - y)\<^sup>2 < m * g * y_max"
    by (simp add: k_num x_max_def E_t_value power2_eq_square)
  then show ?thesis using calc_snap [OF s] assms by simp
qed

section \<open>The energy budget\<close>

subsection \<open>The position 9/16 in double arithmetic\<close>



subsection \<open>The budget in exact arithmetic\<close>



section \<open>The trajectory\<close>

subsection \<open>Bounds on \<open>pi\<close>: \<open>3.125 < pi < 3.15\<close>\<close>

lemma sin_sum13: "(\<Sum>i<13. sin_coeff i * x ^ i) =
   x - x^3 / 6 + x^5 / 120 - x^7 / 5040 + x^9 / 362880 - x^11 / 39916800" for x :: real
  by (simp add: eval_nat_numeral sin_coeff_Suc cos_coeff_Suc)

lemma fact13: "fact 13 = (6227020800 :: real)"
  by (simp add: eval_nat_numeral)

lemma sin_near:
  "\<bar>sin x - (x - x^3 / 6 + x^5 / 120 - x^7 / 5040 + x^9 / 362880 - x^11 / 39916800)\<bar>
     \<le> \<bar>x\<bar> ^ 13 / 6227020800" for x :: real
proof -
  have e: "inverse (fact 13) * \<bar>x\<bar> ^ 13 = \<bar>x\<bar> ^ 13 / 6227020800"
    unfolding fact13 by (simp add: field_simps)
  show ?thesis using Maclaurin_sin_bound [of x 13] unfolding sin_sum13 e .
qed

lemma sin_25_8_pos: "0 < sin (25 / 8 :: real)"
proof -
  define S :: real where
    "S = 25 / 8 - (25 / 8)^3 / 6 + (25 / 8)^5 / 120 - (25 / 8)^7 / 5040 + (25 / 8)^9 / 362880
           - (25 / 8)^11 / 39916800"
  define E :: real where "E = \<bar>25 / 8\<bar> ^ 13 / 6227020800"
  have "\<bar>sin (25 / 8) - S\<bar> \<le> E" unfolding S_def E_def by (rule sin_near)
  moreover have "E < S" unfolding S_def E_def by (simp add: power_divide)
  ultimately show ?thesis by linarith
qed

lemma sin_63_20_neg: "sin (63 / 20 :: real) < 0"
proof -
  define S :: real where
    "S = 63 / 20 - (63 / 20)^3 / 6 + (63 / 20)^5 / 120 - (63 / 20)^7 / 5040 + (63 / 20)^9 / 362880
           - (63 / 20)^11 / 39916800"
  define E :: real where "E = \<bar>63 / 20\<bar> ^ 13 / 6227020800"
  have "\<bar>sin (63 / 20) - S\<bar> \<le> E" unfolding S_def E_def by (rule sin_near)
  moreover have "S < - E" unfolding S_def E_def by (simp add: power_divide)
  ultimately show ?thesis by linarith
qed

lemma pi_gt_25_8: "25 / 8 < pi"
proof (rule ccontr)
  assume "\<not> 25 / 8 < pi"
  then have "pi \<le> 25 / 8" by simp
  moreover have "(25 / 8 :: real) < 2 * pi" using pi_ge_two by simp
  ultimately have "sin (25 / 8 :: real) \<le> 0" by (rule sin_le_zero)
  then show False using sin_25_8_pos by simp
qed

lemma pi_lt_63_20: "pi < 63 / 20"
proof (rule ccontr)
  assume "\<not> pi < 63 / 20"
  then have "63 / 20 \<le> pi" by simp
  then have "0 \<le> sin (63 / 20 :: real)" by (intro sin_ge_zero) simp_all
  then show False using sin_63_20_neg by simp
qed

subsection \<open>The cosine at the midpoint and at the final sample\<close>

lemma cos_lower: "1 - x\<^sup>2 / 2 \<le> cos x" for x :: real
proof -
  obtain t where "cos x = (\<Sum>i<2. cos_coeff i * x ^ i) + (cos (t + 1 / 2 * real (2::nat) * pi) / fact 2) * x ^ 2"
    using Maclaurin_cos_expansion [of x 2] by blast
  then have "cos x = 1 - cos t * x\<^sup>2 / 2"
    by (simp add: cos_coeff_def eval_nat_numeral)
  moreover have "cos t * x\<^sup>2 \<le> 1 * x\<^sup>2" by (intro mult_right_mono) simp_all
  ultimately show ?thesis by simp
qed


lemma cos_lt_one_small: "0 < x \<Longrightarrow> x \<le> pi \<Longrightarrow> cos x < 1" for x :: real
  using cos_monotone_0_pi [of 0 x] by simp

lemma cos_mid: "cos (63 / 20 :: real) = - cos (63 / 20 - pi)"
  by simp

lemma cos_mid_gt: "- 1 < cos (63 / 20 :: real)"
proof -
  have "0 < 63 / 20 - pi" "63 / 20 - pi \<le> pi" using pi_lt_63_20 pi_gt_25_8 by simp_all
  then have "cos (63 / 20 - pi) < 1" by (rule cos_lt_one_small)
  then show ?thesis unfolding cos_mid by simp
qed

lemma cos_mid_lt: "cos (63 / 20 :: real) < - 1 + 1 / 3200"
proof -
  let ?d = "63 / 20 - pi"
  have d: "0 < ?d" "?d < 1 / 40" using pi_lt_63_20 pi_gt_25_8 by simp_all
  have "?d * ?d < (1 / 40) * (1 / 40)" using d by (intro mult_strict_mono) simp_all
  then have "?d\<^sup>2 / 2 < 1 / 3200" by (simp add: power2_eq_square)
  moreover have "1 - ?d\<^sup>2 / 2 \<le> cos ?d" by (rule cos_lower)
  ultimately have "1 - 1 / 3200 < cos ?d" by linarith
  then show ?thesis unfolding cos_mid by linarith
qed

lemma cos_end: "cos (25 / 4 :: real) = cos (2 * pi - 25 / 4)"
  by simp

lemma cos_end_lt: "cos (25 / 4 :: real) < 1"
proof -
  have "0 < 2 * pi - 25 / 4" "2 * pi - 25 / 4 \<le> pi" using pi_lt_63_20 pi_gt_25_8 by simp_all
  then have "cos (2 * pi - 25 / 4) < 1" by (rule cos_lt_one_small)
  then show ?thesis unfolding cos_end .
qed

lemma cos_end_gt: "1 - 1 / 800 < cos (25 / 4 :: real)"
proof -
  let ?d = "2 * pi - 25 / 4"
  have d: "0 < ?d" "?d < 1 / 20" using pi_lt_63_20 pi_gt_25_8 by simp_all
  have "?d * ?d < (1 / 20) * (1 / 20)" using d by (intro mult_strict_mono) simp_all
  then have "?d\<^sup>2 / 2 < 1 / 800" by (simp add: power2_eq_square)
  moreover have "1 - ?d\<^sup>2 / 2 \<le> cos ?d" by (rule cos_lower)
  ultimately have "1 - 1 / 800 < cos ?d" by linarith
  then show ?thesis unfolding cos_end .
qed

lemma cos_ge_mid:
  fixes t :: real
  assumes "0 \<le> t" "t \<le> 31 / 10 \<or> 63 / 20 \<le> t" "t \<le> 25 / 4"
  shows "cos (63 / 20) \<le> cos t"
proof -
  let ?r = "2 * pi - 63 / 20"
  have r: "31 / 10 \<le> ?r" "?r \<le> pi" using pi_lt_63_20 pi_gt_25_8 by simp_all
  have c: "cos (63 / 20 :: real) = cos ?r" by simp
  from assms(2) show ?thesis
  proof
    assume "t \<le> 31 / 10"
    then have "t \<le> ?r" using r(1) by simp
    then have "cos ?r \<le> cos t" using assms(1) r(2) by (intro cos_monotone_0_pi_le)
    then show ?thesis unfolding c .
  next
    assume a: "63 / 20 \<le> t"
    have "0 \<le> 2 * pi - t" using assms(3) pi_gt_25_8 by simp
    moreover have "2 * pi - t \<le> ?r" using a by simp
    ultimately have "cos ?r \<le> cos (2 * pi - t)" using r(2) by (intro cos_monotone_0_pi_le)
    then show ?thesis unfolding c by simp
  qed
qed

subsection \<open>The samples\<close>

lemma n_samples: "\<lceil>(t_total - 0) / dt\<rceil> = 126"
proof (rule ceiling_unique)
  show "of_int 126 - 1 < (t_total - 0) / dt"
    using pi_gt_25_8 by (simp add: t_total_def dt_def)
  show "(t_total - 0) / dt \<le> of_int 126"
    using pi_lt_63_20 by (simp add: t_total_def dt_def)
qed

lemma n_samples_nat: "nat \<lceil>(t_total - 0) / dt\<rceil> = 126"
  unfolding n_samples by simp

lemma length_tempos: "length tempos = 126"
  unfolding tempos_def arange_def n_samples_nat by simp

lemma nth_tempos: "i < 126 \<Longrightarrow> tempos ! i = real i / 20"
  unfolding tempos_def arange_def n_samples_nat by (simp add: dt_def)

lemma length_posicoes: "length posicoes = 126"
  by (simp add: posicoes_def length_tempos)

lemma nth_posicoes: "i < 126 \<Longrightarrow> posicoes ! i = y_max * (1 + cos (real i / 20)) / 2"
  by (simp add: posicoes_def length_tempos nth_tempos)

lemma hd_posicoes: "hd posicoes = y_max"
proof -
  have "posicoes \<noteq> []" using length_posicoes by auto
  then have "hd posicoes = posicoes ! 0" by (rule hd_conv_nth)
  then show ?thesis using nth_posicoes [of 0] by simp
qed

lemma last_posicoes: "last posicoes = y_max * (1 + cos (25 / 4)) / 2"
proof -
  have "posicoes \<noteq> []" using length_posicoes by auto
  then have "last posicoes = posicoes ! (length posicoes - 1)" by (rule last_conv_nth)
  then show ?thesis using nth_posicoes [of 125] by (simp add: length_posicoes)
qed

lemma last_tempos: "last tempos = 25 / 4"
proof -
  have "tempos \<noteq> []" using length_tempos by auto
  then have "last tempos = tempos ! (length tempos - 1)" by (rule last_conv_nth)
  then show ?thesis using nth_tempos [of 125] by (simp add: length_tempos)
qed

lemma mid_posicoes: "posicoes ! 63 = y_max * (1 + cos (63 / 20)) / 2"
  using nth_posicoes [of 63] by simp

lemma sample_bounds:
  assumes "p \<in> set posicoes"
  shows "posicoes ! 63 \<le> p \<and> p \<le> y_max"
proof -
  obtain i where i: "i < 126" and p: "p = posicoes ! i"
    using assms length_posicoes by (metis in_set_conv_nth)
  have e: "p = y_max * (1 + cos (real i / 20)) / 2" using p nth_posicoes [OF i] by simp
  have "i \<le> 62 \<or> 63 \<le> i" by linarith
  then have "real i / 20 \<le> 31 / 10 \<or> 63 / 20 \<le> real i / 20" by auto
  moreover have "0 \<le> real i / 20" by simp
  moreover have "real i / 20 \<le> 25 / 4" using i by simp
  ultimately have "cos (63 / 20) \<le> cos (real i / 20)" by (intro cos_ge_mid)
  then have "posicoes ! 63 \<le> p" unfolding mid_posicoes e by (simp add: y_max_def)
  moreover have "p \<le> y_max" unfolding e by (simp add: y_max_def)
  ultimately show ?thesis by simp
qed

lemma mid_pos: "0 < posicoes ! 63"
  unfolding mid_posicoes using cos_mid_gt by (simp add: y_max_def)

lemma mid_small: "posicoes ! 63 < 1 / 1000"
  unfolding mid_posicoes using cos_mid_lt by (simp add: y_max_def)

lemma last_lt: "last posicoes < y_max"
  unfolding last_posicoes using cos_end_lt by (simp add: y_max_def)

lemma last_near: "y_max - 1 / 1000 < last posicoes"
  unfolding last_posicoes using cos_end_gt by (simp add: y_max_def)

subsection \<open>The shape of the sampled trajectory\<close>

text \<open>
  C5, as stated: the trajectory \<open>y(t) = y_max * (1 + cos t) / 2\<close> sampled at step 0.05 over
  \<open>[0, 2 * pi)\<close> has \<open>\<lceil>2 * pi / 0.05\<rceil>\<close> samples, starts at \<open>y_max\<close>, attains the minimum
  value 0 at the midpoint sample and returns to \<open>y_max\<close> at the final sample. The grid
  of step 0.05 does not contain \<open>pi\<close>, and its last point is 6.25, not \<open>2 * pi\<close>: no
  sample is 0, the midpoint sample (index 63, \<open>t = 3.15\<close>) included, and the final
  sample is not \<open>y_max\<close>.
\<close>

theorem trajectory_counterexample:
  "length posicoes = 126 \<and> posicoes ! 63 \<noteq> 0 \<and> 0 \<notin> set posicoes \<and> last posicoes \<noteq> y_max"
proof -
  have "0 \<notin> set posicoes"
  proof
    assume "0 \<in> set posicoes"
    then have "posicoes ! 63 \<le> 0" using sample_bounds by blast
    then show False using mid_pos by simp
  qed
  then show ?thesis using length_posicoes mid_pos last_lt by simp
qed

text \<open>
  C5, amended: the sampled trajectory has exactly \<open>\<lceil>2 * pi / 0.05\<rceil> = 126\<close> samples and
  starts at \<open>y_max\<close> at \<open>t = 0\<close>; its minimum is attained at the midpoint sample (index
  63, \<open>t = 3.15\<close>), where the position is strictly positive and below 0.001; every
  sample is at most \<open>y_max\<close>; and the final sample (\<open>t = 6.25\<close>) is strictly below
  \<open>y_max\<close>, within 0.001 of it.
\<close>

theorem trajectory_samples:
  "length posicoes = nat \<lceil>2 * pi / (5 / 100)\<rceil> \<and> length posicoes = 126
   \<and> hd tempos = 0 \<and> hd posicoes = y_max
   \<and> tempos ! 63 = 63 / 20 \<and> 0 < posicoes ! 63 \<and> posicoes ! 63 < 1 / 1000
   \<and> (\<forall>p \<in> set posicoes. posicoes ! 63 \<le> p \<and> p \<le> y_max)
   \<and> last tempos = 25 / 4 \<and> y_max - 1 / 1000 < last posicoes \<and> last posicoes < y_max"
proof -
  have n: "nat \<lceil>2 * pi / (5 / 100)\<rceil> = 126"
    using n_samples_nat by (simp add: t_total_def dt_def)
  have "tempos \<noteq> []" using length_tempos by auto
  then have "hd tempos = tempos ! 0" by (rule hd_conv_nth)
  then have h: "hd tempos = 0" using nth_tempos [of 0] by simp
  have t: "tempos ! 63 = 63 / 20" using nth_tempos [of 63] by simp
  show ?thesis
    using n length_posicoes h hd_posicoes t mid_pos mid_small sample_bounds last_tempos
      last_near last_lt
    by simp
qed

theorem trajectory_samples_witness:
  "hd posicoes \<in> set posicoes \<and> posicoes ! 63 \<le> hd posicoes \<and> hd posicoes \<le> y_max
   \<and> hd posicoes = y_max \<and> length posicoes = 126"
proof -
  have "posicoes \<noteq> []" using length_posicoes by auto
  then have "hd posicoes \<in> set posicoes" by (rule hd_in_set)
  then show ?thesis using trajectory_samples by blast
qed

end
